theory Spec2Isabelle
  imports Complex_Main "HOL-Library.Sublist"
begin

section \<open>Articles and the article store\<close>

text \<open>
  An article is a MongoDB document. The fields the pipeline stages read or write are the
  fields of the record; a field that a document may lack is an option (\<open>None\<close>: the
  document has no such key; for \<open>topic_cluster_id\<close> also the stored null). \<open>_id\<close> is
  an opaque identity. Embeddings are vectors of reals: the floating-point arithmetic of
  NumPy is idealised.
\<close>

type_synonym object_id = nat

record article =
  doc_id :: object_id
  title :: "string option"
  text_field :: "string option"
  embedding :: "real list option"
  predicted_topic :: "string option"
  topic_cluster_id :: "int option"
  is_featured :: "bool option"
  featured_at :: "string option"

type_synonym collection = "article list"

datatype py_error = KeyError | ValueError | IndexError | ClassifierError

text \<open>
  The three pymongo calls of the pipeline, on a collection kept as the list of its
  documents in natural order: \<open>find\<close> returns the matching documents, \<open>update_many\<close>
  changes every matching document, \<open>update_one\<close> changes the first one.
\<close>

definition find_docs :: "(article \<Rightarrow> bool) \<Rightarrow> collection \<Rightarrow> article list" where
  "find_docs q db = filter q db"

definition update_many :: "(article \<Rightarrow> bool) \<Rightarrow> (article \<Rightarrow> article) \<Rightarrow> collection \<Rightarrow> collection" where
  "update_many q upd db = map (\<lambda>d. if q d then upd d else d) db"

fun update_one :: "(article \<Rightarrow> bool) \<Rightarrow> (article \<Rightarrow> article) \<Rightarrow> collection \<Rightarrow> collection" where
  "update_one q upd [] = []"
| "update_one q upd (d # ds) = (if q d then upd d # ds else d # update_one q upd ds)"

text \<open>\<open>article.get(key, "")\<close> on a text field.\<close>

definition get_str :: "string option \<Rightarrow> string" where
  "get_str v = (case v of None \<Rightarrow> [] | Some s \<Rightarrow> s)"

text \<open>\<open>[doc["embedding"] for doc in articles]\<close>: the first document without the key raises.\<close>

fun embeddings_of :: "article list \<Rightarrow> py_error + real list list" where
  "embeddings_of [] = Inr []"
| "embeddings_of (d # ds) =
     (case embedding d of
        None \<Rightarrow> Inl KeyError
      | Some v \<Rightarrow> (case embeddings_of ds of Inl e \<Rightarrow> Inl e | Inr vs \<Rightarrow> Inr (v # vs)))"

section \<open>fetch_articles.py\<close>

definition fetch_articles_with_embeddings :: "collection \<Rightarrow> article list" where
  "fetch_articles_with_embeddings db = find_docs (\<lambda>d. embedding d \<noteq> None) db"

section \<open>Cosine similarity\<close>

text \<open>
  \<open>sklearn.metrics.pairwise.cosine_similarity\<close>: every row is divided by its Euclidean norm
  (a zero row is left as it is), and the matrix of dot products of the normalised rows is
  returned. An empty batch, rows of different lengths and rows without components are
  rejected with a ValueError.
\<close>

definition l2_norm :: "real list \<Rightarrow> real" where
  "l2_norm v = sqrt (sum_list (map (\<lambda>x. x * x) v))"

definition normalize_row :: "real list \<Rightarrow> real list" where
  "normalize_row v = (let n = l2_norm v in map (\<lambda>x. x / (if n = 0 then 1 else n)) v)"

definition dot :: "real list \<Rightarrow> real list \<Rightarrow> real" where
  "dot u v = sum_list (map2 (*) u v)"

definition cos_sim :: "real list \<Rightarrow> real list \<Rightarrow> real" where
  "cos_sim u v = dot (normalize_row u) (normalize_row v)"

definition cosine_similarity :: "real list list \<Rightarrow> py_error + real list list" where
  "cosine_similarity X =
     (case X of
        [] \<Rightarrow> Inl ValueError
      | x # _ \<Rightarrow>
          if x = [] \<or> list_ex (\<lambda>v. length v \<noteq> length x) X then Inl ValueError
          else Inr (map (\<lambda>u. map (\<lambda>v. cos_sim u v) X) X))"

section \<open>highlight_news.py\<close>

definition HIGHLIGHT_KEYWORDS :: "string list" where
  "HIGHLIGHT_KEYWORDS = [''breaking news'', ''exclusive'', ''just in'', ''confirmed'', ''revealed'']"

text \<open>\<open>str.lower\<close> on the ASCII letters; every other character is kept.\<close>

definition lower_char :: "char \<Rightarrow> char" where
  "lower_char c =
     (let n = (of_char c :: nat) in if 65 \<le> n \<and> n \<le> 90 then char_of (n + 32) else c)"

definition lower :: "string \<Rightarrow> string" where
  "lower s = map lower_char s"

text \<open>\<open>kw in s\<close> on strings is \<^const>\<open>sublist\<close>: \<open>kw\<close> occurs in \<open>s\<close> as a contiguous run.\<close>

definition is_highlight_keyword_present :: "string \<Rightarrow> bool" where
  "is_highlight_keyword_present s = list_ex (\<lambda>kw. sublist kw (lower s)) HIGHLIGHT_KEYWORDS"

text \<open>Step 3 of \<open>get_highlights\<close>: \<open>(sim_matrix > similarity_threshold).sum(axis=1)\<close>.\<close>

definition freq_scores :: "real list list \<Rightarrow> real \<Rightarrow> int list" where
  "freq_scores sim_matrix similarity_threshold =
     map (\<lambda>row. int (length (filter (\<lambda>s. s > similarity_threshold) row))) sim_matrix"

text \<open>Step 4: the amount added to \<open>freq_scores[i]\<close> for one article.\<close>

definition keyword_boost :: "article \<Rightarrow> int" where
  "keyword_boost a =
     (if is_highlight_keyword_present (get_str (title a) @ get_str (text_field a)) then 5 else 0)"

text \<open>Steps 2 to 4: the array \<open>freq_scores\<close> as it stands when the ranking starts.\<close>

definition highlight_scores :: "article list \<Rightarrow> real \<Rightarrow> py_error + int list" where
  "highlight_scores articles similarity_threshold =
     (case embeddings_of articles of
        Inl e \<Rightarrow> Inl e
      | Inr embeddings \<Rightarrow>
          (case cosine_similarity embeddings of
             Inl e \<Rightarrow> Inl e
           | Inr sim_matrix \<Rightarrow>
               Inr (map2 (\<lambda>a f. f + keyword_boost a) articles
                      (freq_scores sim_matrix similarity_threshold))))"

text \<open>
  \<open>np.argsort\<close>: the indices that sort the array in ascending order. Equal scores keep
  their index order here (a stable sort), which is what NumPy's default sort does on the
  short arrays it sorts by insertion; NumPy itself promises no order among equal elements.
\<close>

definition argsort :: "int list \<Rightarrow> nat list" where
  "argsort scores = sort_key (\<lambda>i. scores ! i) [0..<length scores]"

text \<open>
  The slice \<open>xs[start:]\<close>: a negative \<open>start\<close> counts from the end and is clamped to the
  beginning of the list.
\<close>

definition slice_from :: "int \<Rightarrow> 'a list \<Rightarrow> 'a list" where
  "slice_from start xs =
     (if start < 0 then drop (nat (int (length xs) + start)) xs else drop (nat start) xs)"

text \<open>Step 5: \<open>np.argsort(freq_scores)[-top_k:][::-1]\<close>.\<close>

definition top_indices :: "int list \<Rightarrow> int \<Rightarrow> nat list" where
  "top_indices scores top_k = rev (slice_from (- top_k) (argsort scores))"

definition get_highlights :: "collection \<Rightarrow> string \<Rightarrow> int \<Rightarrow> real \<Rightarrow> py_error + article list" where
  "get_highlights db category top_k similarity_threshold =
     (let articles = find_docs (\<lambda>d. predicted_topic d = Some category) db in
      if articles = [] then Inr []
      else
        (case highlight_scores articles similarity_threshold of
           Inl e \<Rightarrow> Inl e
         | Inr scores \<Rightarrow> Inr (map (\<lambda>i. articles ! i) (top_indices scores top_k))))"

text \<open>
  \<open>update_featured_highlights\<close> writes to the store before and after the ranking, so it
  returns the store together with the exception that ended it, if any. \<open>now_str\<close> is the
  clock reading of the run.
\<close>

definition mark_featured :: "string \<Rightarrow> collection \<Rightarrow> object_id list \<Rightarrow> collection" where
  "mark_featured now_str db highlight_ids =
     fold (\<lambda>i c. update_one (\<lambda>d. doc_id d = i)
                    (\<lambda>d. d\<lparr>is_featured := Some True, featured_at := Some now_str\<rparr>) c)
          highlight_ids db"

definition update_featured_highlights ::
  "string \<Rightarrow> collection \<Rightarrow> string \<Rightarrow> int \<Rightarrow> collection \<times> py_error option" where
  "update_featured_highlights now_str db category top_k =
     (let db1 = update_many (\<lambda>d. predicted_topic d = Some category)
                  (\<lambda>d. d\<lparr>is_featured := Some False\<rparr>) db
      in case get_highlights db1 category top_k (9 / 10) of
           Inl e \<Rightarrow> (db1, Some e)
         | Inr highlights \<Rightarrow> (mark_featured now_str db1 (map doc_id highlights), None))"

section \<open>zero_shot_topic_clustering.py\<close>

definition TOPIC_LABELS :: "string list" where
  "TOPIC_LABELS = [''sports'', ''finance'', ''lifestyle'', ''music'', ''technology'',
     ''politics'', ''health'', ''education'']"

text \<open>
  The zero-shot classifier is an external model: it receives the text and the candidate
  labels and either raises or returns \<open>result["labels"]\<close>, the labels ranked by score.
\<close>

type_synonym classifier = "string \<Rightarrow> string list \<Rightarrow> py_error + string list"

definition classify_article :: "classifier \<Rightarrow> string \<Rightarrow> py_error + string" where
  "classify_article classifier article_text =
     (case classifier article_text TOPIC_LABELS of
        Inl e \<Rightarrow> Inl e
      | Inr labels \<Rightarrow> (case labels of [] \<Rightarrow> Inl IndexError | best # _ \<Rightarrow> Inr best))"

definition update_article_topic :: "collection \<Rightarrow> object_id \<Rightarrow> string \<Rightarrow> collection" where
  "update_article_topic db article_id topic =
     update_one (\<lambda>d. doc_id d = article_id) (\<lambda>d. d\<lparr>predicted_topic := Some topic\<rparr>) db"

text \<open>The text handed to the classifier: title, newline, text, cut to 2048 characters.\<close>

definition article_text :: "article \<Rightarrow> string" where
  "article_text a = take 2048 (get_str (title a) @ [CHR 0x0A] @ get_str (text_field a))"

text \<open>
  The loop over the fetched articles. Nothing in it catches an exception, so the first
  failure ends the run with the store as the earlier iterations left it.
\<close>

fun classify_loop :: "classifier \<Rightarrow> article list \<Rightarrow> collection \<Rightarrow> collection \<times> py_error option" where
  "classify_loop classifier [] db = (db, None)"
| "classify_loop classifier (a # as) db =
     (case classify_article classifier (article_text a) of
        Inl e \<Rightarrow> (db, Some e)
      | Inr topic \<Rightarrow> classify_loop classifier as (update_article_topic db (doc_id a) topic))"

definition zeroshot_topic_clustering :: "classifier \<Rightarrow> collection \<Rightarrow> collection \<times> py_error option" where
  "zeroshot_topic_clustering classifier db =
     classify_loop classifier (fetch_articles_with_embeddings db) db"

text \<open>
  The label one iteration of the loop writes for an article: the best label when the
  classifier answers, the label the article had when the call raises.
\<close>

definition new_topic :: "classifier \<Rightarrow> article \<Rightarrow> string option" where
  "new_topic clf d =
     (case classify_article clf (article_text d) of Inl _ \<Rightarrow> predicted_topic d | Inr t \<Rightarrow> Some t)"

section \<open>semantic_topic_grouping.py\<close>

text \<open>
  \<open>labels\<close> is the array HDBSCAN returns: a cluster number for each article, \<open>-1\<close> for
  noise. The loop runs over \<open>zip(articles, labels)\<close>.
\<close>

definition set_topic_cluster :: "int \<Rightarrow> article \<Rightarrow> article" where
  "set_topic_cluster label d =
     d\<lparr>topic_cluster_id := (if label \<noteq> - 1 then Some label else None)\<rparr>"

definition update_articles_with_topic_clusters ::
  "collection \<Rightarrow> article list \<Rightarrow> int list \<Rightarrow> collection" where
  "update_articles_with_topic_clusters db articles labels =
     fold (\<lambda>dl c. update_one (\<lambda>d. doc_id d = doc_id (fst dl)) (set_topic_cluster (snd dl)) c)
          (zip articles labels) db"

section \<open>duplicate_detection.py\<close>

text \<open>
  \<open>AgglomerativeClustering(...).fit_predict\<close> of scikit-learn checks its input before it
  clusters (\<open>ensure_min_samples=2\<close> in \<open>fit\<close>): a matrix with fewer than two samples is
  rejected with a ValueError, "Found array with 1 sample(s) ... while a minimum of 2 is
  required by AgglomerativeClustering". The
  clustering of two or more samples (SciPy's average-linkage tree, cut at the distance
  threshold) is not part of the repository and is the parameter \<open>linkage_cut\<close>.
\<close>

definition agglomerative_fit_predict ::
  "(real list list \<Rightarrow> real \<Rightarrow> int list) \<Rightarrow> real list list \<Rightarrow> real \<Rightarrow> py_error + int list" where
  "agglomerative_fit_predict linkage_cut distance_matrix distance_threshold =
     (if length distance_matrix < 2 then Inl ValueError
      else Inr (linkage_cut distance_matrix distance_threshold))"

definition perform_duplicate_clustering ::
  "(real list list \<Rightarrow> real \<Rightarrow> int list) \<Rightarrow> article list \<Rightarrow> real \<Rightarrow> py_error + int list" where
  "perform_duplicate_clustering linkage_cut articles threshold =
     (case embeddings_of articles of
        Inl e \<Rightarrow> Inl e
      | Inr embeddings \<Rightarrow>
          (case cosine_similarity embeddings of
             Inl e \<Rightarrow> Inl e
           | Inr sim_matrix \<Rightarrow>
               agglomerative_fit_predict linkage_cut
                 (map (map (\<lambda>s. 1 - s)) sim_matrix) (1 - threshold)))"

section \<open>The score as the specification words it\<close>

text \<open>
  The composite score of article \<open>i\<close> as the specification describes it: the number of
  \<^emph>\<open>other\<close> articles of the batch that are more similar to it than the threshold, plus
  the keyword boost.
\<close>

definition emb :: "article \<Rightarrow> real list" where
  "emb a = (case embedding a of None \<Rightarrow> [] | Some v \<Rightarrow> v)"

definition spec_composite_score :: "article list \<Rightarrow> real \<Rightarrow> nat \<Rightarrow> int" where
  "spec_composite_score articles similarity_threshold i =
     int (length (filter (\<lambda>j. j \<noteq> i \<and>
            cos_sim (emb (articles ! i)) (emb (articles ! j)) > similarity_threshold)
          [0..<length articles]))
     + keyword_boost (articles ! i)"

section \<open>The effect of one highlight run\<close>

text \<open>
  What \<open>update_featured_highlights\<close> leaves in one document, given the identities
  \<open>sel\<close> it selected: the documents of the category are reset, the selected ones are
  then marked; every other document is untouched.
\<close>

definition refeature :: "string \<Rightarrow> string \<Rightarrow> object_id list \<Rightarrow> article \<Rightarrow> article" where
  "refeature now_str category sel d =
     (if predicted_topic d = Some category
      then (if doc_id d \<in> set sel
            then d\<lparr>is_featured := Some True, featured_at := Some now_str\<rparr>
            else d\<lparr>is_featured := Some False\<rparr>)
      else d)"

text \<open>The identities \<open>get_highlights\<close> selects (none when it raises).\<close>

definition selected_ids :: "collection \<Rightarrow> string \<Rightarrow> int \<Rightarrow> object_id list" where
  "selected_ids db category top_k =
     (case get_highlights db category top_k (9 / 10) of
        Inl _ \<Rightarrow> []
      | Inr highlights \<Rightarrow> map doc_id highlights)"

text \<open>The identities of the articles of a category that are featured in a store.\<close>

definition featured_ids :: "collection \<Rightarrow> string \<Rightarrow> object_id list" where
  "featured_ids db category =
     map doc_id (filter (\<lambda>d. predicted_topic d = Some category \<and> is_featured d = Some True) db)"

text \<open>
  A change of documents that leaves alone every field the ranking reads: identity, title,
  text, embedding and topic.
\<close>

definition same_content :: "(article \<Rightarrow> article) \<Rightarrow> bool" where
  "same_content h = (\<forall>d. doc_id (h d) = doc_id d \<and> title (h d) = title d
     \<and> text_field (h d) = text_field d \<and> embedding (h d) = embedding d
     \<and> predicted_topic (h d) = predicted_topic d)"

section \<open>Labelled articles carry an embedding\<close>


section \<open>Sample documents\<close>

definition mk_article ::
  "object_id \<Rightarrow> string \<Rightarrow> real list option \<Rightarrow> string option \<Rightarrow> article" where
  "mk_article i t e p =
     \<lparr>doc_id = i, title = Some t, text_field = None, embedding = e, predicted_topic = p,
      topic_cluster_id = None, is_featured = None, featured_at = None\<rparr>"

definition art_breaking :: article where
  "art_breaking = mk_article 1 ''BREAKING: Markets fall'' (Some [1, 0]) (Some ''sports'')"

definition art_breaking_news :: article where
  "art_breaking_news = mk_article 2 ''BREAKING NEWS: Markets fall'' (Some [1, 0]) (Some ''sports'')"

definition art_plain :: article where
  "art_plain = mk_article 3 ''Cup final tonight'' (Some [0, 1]) (Some ''sports'')"


definition art_unlabelled :: article where
  "art_unlabelled = mk_article 5 ''Budget vote'' (Some [1, 0]) None"

text \<open>An article that an earlier run left featured.\<close>

definition art_stale :: article where
  "art_stale =
     \<lparr>doc_id = 6, title = Some ''Cup final tonight'', text_field = None,
      embedding = Some [0, 1], predicted_topic = Some ''sports'', topic_cluster_id = None,
      is_featured = Some True, featured_at = Some ''2025-01-01 09:00:00''\<rparr>"

text \<open>A classifier that fails on one text and ranks the labels as given on every other.\<close>

definition flaky_classifier :: classifier where
  "flaky_classifier t labels = (if t = article_text art_breaking then Inl ClassifierError else Inr labels)"

section \<open>Sample documents: field values and scores\<close>

lemma sample_fields:
  "doc_id (mk_article i t e p) = i"
  "title (mk_article i t e p) = Some t"
  "text_field (mk_article i t e p) = None"
  "embedding (mk_article i t e p) = e"
  "predicted_topic (mk_article i t e p) = p"
  "topic_cluster_id (mk_article i t e p) = None"
  "is_featured (mk_article i t e p) = None"
  by (simp_all add: mk_article_def)

lemma art_breaking_fields:
  "doc_id art_breaking = 1" "embedding art_breaking = Some [1, 0]"
  "predicted_topic art_breaking = Some ''sports''" "emb art_breaking = [1, 0]"
  by (simp_all add: art_breaking_def sample_fields emb_def)

lemma art_plain_fields:
  "doc_id art_plain = 3" "embedding art_plain = Some [0, 1]"
  "predicted_topic art_plain = Some ''sports''" "emb art_plain = [0, 1]"
  by (simp_all add: art_plain_def sample_fields emb_def)


lemma art_unlabelled_fields:
  "doc_id art_unlabelled = 5" "embedding art_unlabelled = Some [1, 0]"
  "predicted_topic art_unlabelled = None"
  by (simp_all add: art_unlabelled_def sample_fields)

lemma boost_breaking: "keyword_boost art_breaking = 0"
  by code_simp

lemma boost_breaking_news: "keyword_boost art_breaking_news = 5"
  by code_simp

lemma boost_plain: "keyword_boost art_plain = 0"
  by code_simp

lemma cos_sim_samples:
  "cos_sim [1, 0] [1, 0] = 1" "cos_sim [0, 1] [0, 1] = 1"
  "cos_sim [1, 0] [0, 1] = 0" "cos_sim [0, 1] [1, 0] = 0"
  by (simp_all add: cos_sim_def dot_def normalize_row_def l2_norm_def)

lemma scores_one_article: "highlight_scores [art_breaking] (9 / 10) = Inr [1]"
  by (simp add: highlight_scores_def art_breaking_fields cosine_similarity_def cos_sim_samples
      freq_scores_def boost_breaking)

section \<open>The keyword boost\<close>

lemma lower_append: "lower (s @ t) = lower s @ lower t"
  by (simp add: lower_def)

lemma keyword_present_iff:
  "is_highlight_keyword_present s \<longleftrightarrow> (\<exists>kw \<in> set HIGHLIGHT_KEYWORDS. sublist kw (lower s))"
  by (simp add: is_highlight_keyword_present_def list_ex_iff)

text \<open>
  Claim C3, as stated: a title that contains "BREAKING" gets the boost of 5. The phrase
  list holds "breaking news", not "breaking": the title "BREAKING: Markets fall" contains
  "BREAKING" and gets no boost.
\<close>

theorem breaking_title_without_boost:
  "sublist ''BREAKING'' (get_str (title art_breaking)) \<and> keyword_boost art_breaking = 0"
proof
  show "sublist ''BREAKING'' (get_str (title art_breaking))" by code_simp
  show "keyword_boost art_breaking = 0" by (rule boost_breaking)
qed

text \<open>
  Claim C3, amended: an article whose title contains, in any letter case, one of the five
  phrases of \<open>HIGHLIGHT_KEYWORDS\<close> (for "breaking" that is the whole phrase "breaking news")
  gets the keyword boost of 5.
\<close>

theorem keyword_phrase_in_title_boosts:
  assumes "kw \<in> set HIGHLIGHT_KEYWORDS"
    and "sublist kw (lower (get_str (title a)))"
  shows "keyword_boost a = 5"
proof -
  from assms(2) have "sublist kw (lower (get_str (title a)) @ lower (get_str (text_field a)))"
    by (metis sublist_append)
  then have "sublist kw (lower (get_str (title a) @ get_str (text_field a)))"
    by (simp add: lower_append)
  with assms(1) have "is_highlight_keyword_present (get_str (title a) @ get_str (text_field a))"
    unfolding keyword_present_iff by blast
  then show ?thesis by (simp add: keyword_boost_def)
qed

theorem keyword_phrase_in_title_boosts_witness:
  "''breaking news'' \<in> set HIGHLIGHT_KEYWORDS
   \<and> sublist ''breaking news'' (lower (get_str (title art_breaking_news)))
   \<and> keyword_boost art_breaking_news = 5"
proof -
  have k: "''breaking news'' \<in> set HIGHLIGHT_KEYWORDS" by (simp add: HIGHLIGHT_KEYWORDS_def)
  have s: "sublist ''breaking news'' (lower (get_str (title art_breaking_news)))" by code_simp
  from k s keyword_phrase_in_title_boosts [OF k s] show ?thesis by simp
qed

section \<open>The composite score\<close>

lemma embeddings_of_Inr: "embeddings_of as = Inr vs \<Longrightarrow> vs = map emb as"
  by (induction as arbitrary: vs) (auto simp: emb_def split: option.splits sum.splits)

lemma cosine_similarity_Inr:
  "cosine_similarity X = Inr M \<Longrightarrow> M = map (\<lambda>u. map (\<lambda>v. cos_sim u v) X) X"
  by (auto simp: cosine_similarity_def split: list.splits if_splits)

lemma highlight_scores_Inr:
  assumes "highlight_scores articles thr = Inr scores"
  shows "scores = map (\<lambda>a. int (length (filter (\<lambda>b. cos_sim (emb a) (emb b) > thr) articles))
                         + keyword_boost a) articles"
proof -
  from assms obtain vs M where v: "embeddings_of articles = Inr vs"
    and m: "cosine_similarity vs = Inr M"
    and s: "scores = map2 (\<lambda>a f. f + keyword_boost a) articles (freq_scores M thr)"
    by (auto simp: highlight_scores_def split: sum.splits)
  have vs: "vs = map emb articles" using v by (rule embeddings_of_Inr)
  have M: "M = map (\<lambda>u. map (\<lambda>v. cos_sim u v) vs) vs" using m by (rule cosine_similarity_Inr)
  have "freq_scores M thr =
          map (\<lambda>a. int (length (filter (\<lambda>b. cos_sim (emb a) (emb b) > thr) articles))) articles"
    by (simp add: freq_scores_def M vs filter_map comp_def)
  then show ?thesis
    by (simp add: s zip_map2 map_zip_map2 zip_same_conv_map)
qed

text \<open>
  Claim C1, as stated: the frequency term counts the \<^emph>\<open>other\<close> articles only. A category
  with a single article, without a highlight phrase, shows the difference: the row sum runs
  over the diagonal of the similarity matrix too, so the score is 1 where the claim's
  formula gives 0.
\<close>

theorem self_similarity_is_counted:
  "highlight_scores [art_breaking] (9 / 10) = Inr [1]
   \<and> spec_composite_score [art_breaking] (9 / 10) 0 = 0"
  by (simp add: scores_one_article spec_composite_score_def boost_breaking)

text \<open>
  Claim C1, amended: the composite score of an article is the number of articles of the
  category, the article itself included, whose cosine similarity to it exceeds the
  threshold, plus the keyword boost.
\<close>

theorem composite_score_counts_all_similar:
  assumes "highlight_scores articles thr = Inr scores" and "i < length articles"
  shows "scores ! i =
           int (card {j. j < length articles \<and>
                  cos_sim (emb (articles ! i)) (emb (articles ! j)) > thr})
           + keyword_boost (articles ! i)"
  using assms(2) by (simp add: highlight_scores_Inr [OF assms(1)] length_filter_conv_card)

theorem composite_score_counts_all_similar_witness:
  "highlight_scores [art_breaking] (9 / 10) = Inr [1] \<and> (0::nat) < length [art_breaking]
   \<and> [1 :: int] ! 0 =
       int (card {j. j < length [art_breaking] \<and>
              cos_sim (emb ([art_breaking] ! 0)) (emb ([art_breaking] ! j)) > 9 / 10})
       + keyword_boost ([art_breaking] ! 0)"
proof -
  have l: "(0::nat) < length [art_breaking]" by simp
  from composite_score_counts_all_similar [OF scores_one_article l] scores_one_article l
  show ?thesis by blast
qed

section \<open>Writes by document identity\<close>

text \<open>
  MongoDB keeps \<open>_id\<close> unique, so \<open>update_one\<close> by \<open>_id\<close> changes the one document with
  that identity, and a loop of such writes is a single pass over the collection.
\<close>

lemma update_one_distinct:
  "distinct (map doc_id c) \<Longrightarrow>
   update_one (\<lambda>d. doc_id d = k) f c = map (\<lambda>d. if doc_id d = k then f d else d) c"
proof (induction c)
  case Nil
  then show ?case by simp
next
  case (Cons d c)
  then have "\<forall>x \<in> set c. doc_id x \<noteq> doc_id d" by (auto simp: image_iff)
  then have "doc_id d = k \<Longrightarrow> map (\<lambda>x. if doc_id x = k then f x else x) c = c"
    by (simp add: map_idI)
  with Cons show ?case by simp
qed

lemma fold_update_one:
  assumes "distinct (map doc_id c)" and "\<And>k d. doc_id (f k d) = doc_id d"
    and "distinct (map key ks)"
  shows "fold (\<lambda>k c. update_one (\<lambda>d. doc_id d = key k) (f k) c) ks c =
         map (\<lambda>d. case find (\<lambda>k. key k = doc_id d) ks of None \<Rightarrow> d | Some k \<Rightarrow> f k d) c"
  using assms(1,3)
proof (induction ks arbitrary: c)
  case Nil
  then show ?case by simp
next
  case (Cons k ks)
  let ?c1 = "map (\<lambda>d. if doc_id d = key k then f k d else d) c"
  have ids: "map doc_id ?c1 = map doc_id c" by (simp add: assms(2))
  have d1: "distinct (map doc_id ?c1)" using Cons.prems(1) by (simp only: ids)
  have nk: "find (\<lambda>k'. key k' = key k) ks = None"
    using Cons.prems(2) by (auto simp: find_None_iff image_iff)
  have "fold (\<lambda>k c. update_one (\<lambda>d. doc_id d = key k) (f k) c) (k # ks) c =
        fold (\<lambda>k c. update_one (\<lambda>d. doc_id d = key k) (f k) c) ks ?c1"
    using Cons.prems(1) by (simp add: update_one_distinct)
  also have "\<dots> = map (\<lambda>d. case find (\<lambda>k. key k = doc_id d) ks of None \<Rightarrow> d | Some k \<Rightarrow> f k d) ?c1"
    using Cons.IH [OF d1] Cons.prems(2) by simp
  also have "\<dots> = map (\<lambda>d. case find (\<lambda>k. key k = doc_id d) (k # ks) of None \<Rightarrow> d | Some k \<Rightarrow> f k d) c"
    by (auto simp: assms(2) nk)
  finally show ?case .
qed


lemma find_by_id:
  assumes "inj_on doc_id (set db)" and "set ps \<subseteq> set db" and "d \<in> set db"
  shows "find (\<lambda>p. doc_id p = doc_id d) ps = (if d \<in> set ps then Some d else None)"
proof (cases "d \<in> set ps")
  case True
  then obtain p where "find (\<lambda>p. doc_id p = doc_id d) ps = Some p"
    by (cases "find (\<lambda>p. doc_id p = doc_id d) ps") (auto simp: find_None_iff)
  moreover from this have "p \<in> set ps" "doc_id p = doc_id d"
    by (auto simp: find_Some_iff)
  ultimately show ?thesis using assms True by (auto dest: inj_onD)
next
  case False
  have "\<not> (\<exists>p \<in> set ps. doc_id p = doc_id d)"
  proof
    assume "\<exists>p \<in> set ps. doc_id p = doc_id d"
    then obtain p where "p \<in> set ps" "doc_id p = doc_id d" by blast
    with assms have "p = d" by (auto dest: inj_onD)
    with \<open>p \<in> set ps\<close> False show False by simp
  qed
  with False show ?thesis by (simp add: find_None_iff)
qed

section \<open>Duplicate clustering of a single article\<close>

text \<open>
  Claim C9: a batch of exactly one article yields the single label 0. The distance matrix
  of one article has one row, and the clustering call rejects it: the stage raises a
  ValueError instead of returning a label.
\<close>

theorem single_article_clustering_raises:
  "perform_duplicate_clustering linkage_cut [art_plain] (85 / 100) = Inl ValueError"
  by (simp add: perform_duplicate_clustering_def art_plain_fields cosine_similarity_def
      agglomerative_fit_predict_def)

section \<open>Topic labeling when the classifier fails\<close>

lemma flaky_breaking: "classify_article flaky_classifier (article_text art_breaking) = Inl ClassifierError"
  by (simp add: classify_article_def flaky_classifier_def)

lemma text_differs: "article_text art_unlabelled \<noteq> article_text art_breaking"
  by code_simp

lemma flaky_unlabelled: "classify_article flaky_classifier (article_text art_unlabelled) = Inr ''sports''"
  by (simp add: classify_article_def flaky_classifier_def text_differs TOPIC_LABELS_def)

text \<open>
  Claim C6, as stated: a failure on one article is skipped and the rest of the batch is
  still classified. With the classifier failing on the first of two articles the run ends
  with that error and an unchanged store: the second article, which the classifier would
  label, keeps no label.
\<close>

theorem classifier_failure_aborts_batch:
  "zeroshot_topic_clustering flaky_classifier [art_breaking, art_unlabelled]
     = ([art_breaking, art_unlabelled], Some ClassifierError)
   \<and> classify_article flaky_classifier (article_text art_unlabelled) = Inr ''sports''
   \<and> predicted_topic art_unlabelled = None"
  by (simp add: zeroshot_topic_clustering_def fetch_articles_with_embeddings_def find_docs_def
      art_breaking_fields art_unlabelled_fields flaky_breaking flaky_unlabelled)

lemma classify_loop_stops:
  assumes "\<forall>p \<in> set pre. \<exists>t. classify_article clf (article_text p) = Inr t"
    and "classify_article clf (article_text a) = Inl e"
  shows "classify_loop clf (pre @ a # post) c =
         (fold (\<lambda>p c. update_one (\<lambda>d. doc_id d = doc_id p)
                         (\<lambda>d. d\<lparr>predicted_topic := new_topic clf p\<rparr>) c) pre c, Some e)"
  using assms(1)
proof (induction pre arbitrary: c)
  case Nil
  then show ?case by (simp add: assms(2))
next
  case (Cons p pre)
  then obtain t where t: "classify_article clf (article_text p) = Inr t" by auto
  then have "new_topic clf p = Some t" by (simp add: new_topic_def)
  with t Cons show ?case by (simp add: update_article_topic_def)
qed

text \<open>
  Claim C6, amended: a classification failure ends the batch at the failing article. The
  exception reaches the caller; the articles classified before it keep their new label,
  and the failing article and every article after it stay in the store as they were, with
  their previous \<open>predicted_topic\<close> (or none).
\<close>

theorem classifier_failure_stops_labeling:
  assumes "distinct (map doc_id db)"
    and "fetch_articles_with_embeddings db = pre @ a # post"
    and "\<forall>p \<in> set pre. \<exists>t. classify_article clf (article_text p) = Inr t"
    and "classify_article clf (article_text a) = Inl e"
  shows "zeroshot_topic_clustering clf db =
           (map (\<lambda>d. if d \<in> set pre then d\<lparr>predicted_topic := new_topic clf d\<rparr> else d) db, Some e)
         \<and> (\<forall>d \<in> set (a # post). d \<in> set (fst (zeroshot_topic_clustering clf db)))"
proof -
  let ?fetched = "fetch_articles_with_embeddings db"
  have inj: "inj_on doc_id (set db)" using assms(1) by (simp add: distinct_map)
  have sub: "set ?fetched \<subseteq> set db"
    by (auto simp: fetch_articles_with_embeddings_def find_docs_def)
  have "distinct (map doc_id ?fetched)"
    using assms(1) by (simp add: fetch_articles_with_embeddings_def find_docs_def distinct_map_filter)
  then have dall: "distinct (map doc_id (pre @ a # post))" by (simp only: assms(2))
  then have dpre: "distinct (map doc_id pre)" by simp
  have pre_sub: "set pre \<subseteq> set db" and rest_sub: "set (a # post) \<subseteq> set db"
    using sub by (auto simp: assms(2))
  have rest_not_pre: "\<forall>d \<in> set (a # post). d \<notin> set pre"
    using dall by (auto simp: image_iff)
  have "zeroshot_topic_clustering clf db =
          (fold (\<lambda>p c. update_one (\<lambda>d. doc_id d = doc_id p)
                          (\<lambda>d. d\<lparr>predicted_topic := new_topic clf p\<rparr>) c) pre db, Some e)"
    by (simp add: zeroshot_topic_clustering_def assms(2) classify_loop_stops [OF assms(3,4)])
  also have "fold (\<lambda>p c. update_one (\<lambda>d. doc_id d = doc_id p)
                          (\<lambda>d. d\<lparr>predicted_topic := new_topic clf p\<rparr>) c) pre db =
             map (\<lambda>d. case find (\<lambda>p. doc_id p = doc_id d) pre of None \<Rightarrow> d
                       | Some p \<Rightarrow> d\<lparr>predicted_topic := new_topic clf p\<rparr>) db"
    by (rule fold_update_one [OF assms(1) _ dpre]) simp
  also have "\<dots> = map (\<lambda>d. if d \<in> set pre then d\<lparr>predicted_topic := new_topic clf d\<rparr> else d) db"
    by (rule map_cong) (simp_all add: find_by_id [OF inj pre_sub])
  finally have eq: "zeroshot_topic_clustering clf db =
           (map (\<lambda>d. if d \<in> set pre then d\<lparr>predicted_topic := new_topic clf d\<rparr> else d) db, Some e)" .
  have "\<forall>d \<in> set (a # post). d \<in> set (fst (zeroshot_topic_clustering clf db))"
  proof
    fix d assume d: "d \<in> set (a # post)"
    then have "d \<in> set db" "d \<notin> set pre" using rest_sub rest_not_pre by auto
    then have "d \<in> (\<lambda>d. if d \<in> set pre then d\<lparr>predicted_topic := new_topic clf d\<rparr> else d) ` set db"
      by (auto simp: image_iff intro: bexI [of _ d])
    then show "d \<in> set (fst (zeroshot_topic_clustering clf db))" by (simp add: eq)
  qed
  with eq show ?thesis by blast
qed

theorem classifier_failure_stops_labeling_witness:
  "zeroshot_topic_clustering flaky_classifier [art_unlabelled, art_breaking, art_plain] =
     ([art_unlabelled\<lparr>predicted_topic := Some ''sports''\<rparr>, art_breaking, art_plain],
      Some ClassifierError)"
proof -
  let ?db = "[art_unlabelled, art_breaking, art_plain]"
  have h1: "distinct (map doc_id ?db)"
    by (simp add: art_unlabelled_fields art_breaking_fields art_plain_fields)
  have h2: "fetch_articles_with_embeddings ?db = [art_unlabelled] @ art_breaking # [art_plain]"
    by (simp add: fetch_articles_with_embeddings_def find_docs_def
        art_unlabelled_fields art_breaking_fields art_plain_fields)
  have h3: "\<forall>p \<in> set [art_unlabelled]. \<exists>t. classify_article flaky_classifier (article_text p) = Inr t"
    by (simp add: flaky_unlabelled)
  have ne: "art_breaking \<noteq> art_unlabelled" "art_plain \<noteq> art_unlabelled"
    by (auto dest: arg_cong [where f = doc_id] simp: art_unlabelled_fields art_breaking_fields art_plain_fields)
  have nt: "new_topic flaky_classifier art_unlabelled = Some ''sports''"
    by (simp add: new_topic_def flaky_unlabelled)
  from classifier_failure_stops_labeling [OF h1 h2 h3 flaky_breaking]
  show ?thesis by (simp add: ne nt)
qed

section \<open>Topic cluster ids\<close>

lemma zip_keys_distinct:
  assumes "distinct (map doc_id articles)"
  shows "distinct (map (\<lambda>dl. doc_id (fst dl)) (zip articles labels))"
proof -
  have "map (\<lambda>dl. doc_id (fst dl)) (zip articles labels) = map doc_id (map fst (zip articles labels))"
    by simp
  also have "\<dots> = take (min (length articles) (length labels)) (map doc_id articles)"
    by (simp only: map_fst_zip_take take_map)
  finally show ?thesis using assms by (simp only: distinct_take)
qed

text \<open>
  Claim C7: after \<open>update_articles_with_topic_clusters\<close>, the stored \<open>topic_cluster_id\<close>
  of every article of the batch is \<open>None\<close> exactly when its label is the noise sentinel
  \<open>-1\<close>, is the label itself otherwise, and is never \<open>-1\<close>. Identities are unique in the
  store and in the batch.
\<close>

theorem noise_label_stored_as_none:
  assumes "distinct (map doc_id db)" and "distinct (map doc_id articles)"
    and "i < length articles" and "i < length labels"
    and "d \<in> set (update_articles_with_topic_clusters db articles labels)"
    and "doc_id d = doc_id (articles ! i)"
  shows "(topic_cluster_id d = None \<longleftrightarrow> labels ! i = - 1)
         \<and> (labels ! i \<noteq> - 1 \<longrightarrow> topic_cluster_id d = Some (labels ! i))
         \<and> topic_cluster_id d \<noteq> Some (- 1)"
proof -
  let ?ks = "zip articles labels"
  let ?key = "\<lambda>dl :: article \<times> int. doc_id (fst dl)"
  have fold_eq: "update_articles_with_topic_clusters db articles labels =
      map (\<lambda>d. case find (\<lambda>k. ?key k = doc_id d) ?ks of None \<Rightarrow> d
                | Some k \<Rightarrow> set_topic_cluster (snd k) d) db"
    unfolding update_articles_with_topic_clusters_def
    by (rule fold_update_one [OF assms(1) _ zip_keys_distinct [OF assms(2)]])
       (simp add: set_topic_cluster_def)
  have i: "i < length ?ks" using assms(3,4) by simp
  have "find (\<lambda>k. ?key k = doc_id (articles ! i)) ?ks = Some (?ks ! i)"
  proof -
    have "\<forall>j < i. ?key (?ks ! j) \<noteq> doc_id (articles ! i)"
    proof (intro allI impI)
      fix j assume "j < i"
      then have "j < length articles" "j \<noteq> i" using assms(3) by auto
      with assms(2,3,4) \<open>j < i\<close> show "?key (?ks ! j) \<noteq> doc_id (articles ! i)"
        by (simp add: distinct_conv_nth)
    qed
    moreover have "?key (?ks ! i) = doc_id (articles ! i)" using assms(3,4) by simp
    ultimately show ?thesis unfolding find_Some_iff using i by blast
  qed
  then have f: "find (\<lambda>k. ?key k = doc_id (articles ! i)) ?ks = Some (articles ! i, labels ! i)"
    using assms(3,4) by simp
  from assms(5) obtain d0 where "d0 \<in> set db"
    and d: "d = (case find (\<lambda>k. ?key k = doc_id d0) ?ks of None \<Rightarrow> d0
                 | Some k \<Rightarrow> set_topic_cluster (snd k) d0)"
    unfolding fold_eq by auto
  have "doc_id d = doc_id d0"
    by (subst d) (simp add: set_topic_cluster_def split: option.splits)
  with assms(6) f d have "d = set_topic_cluster (labels ! i) d0" by simp
  then show ?thesis by (simp add: set_topic_cluster_def)
qed

theorem noise_label_stored_as_none_witness:
  "topic_cluster_id
     (update_articles_with_topic_clusters [art_plain, art_unlabelled]
        [art_plain, art_unlabelled] [- 1, 3] ! 0) = None
   \<and> topic_cluster_id
     (update_articles_with_topic_clusters [art_plain, art_unlabelled]
        [art_plain, art_unlabelled] [- 1, 3] ! 1) = Some 3"
proof -
  let ?db = "[art_plain, art_unlabelled]"
  let ?labels = "[- 1, 3] :: int list"
  let ?out = "update_articles_with_topic_clusters ?db ?db ?labels"
  have out: "?out = [set_topic_cluster (- 1) art_plain, set_topic_cluster 3 art_unlabelled]"
    by (simp add: update_articles_with_topic_clusters_def art_plain_fields art_unlabelled_fields
        set_topic_cluster_def)
  have h1: "distinct (map doc_id ?db)"
    by (simp add: art_unlabelled_fields art_plain_fields)
  have m0: "?out ! 0 \<in> set ?out" and m1: "?out ! 1 \<in> set ?out" by (simp_all add: out)
  have i0: "doc_id (?out ! 0) = doc_id (?db ! 0)" and i1: "doc_id (?out ! 1) = doc_id (?db ! 1)"
    by (simp_all add: out set_topic_cluster_def)
  have l0: "(0::nat) < length ?db" "(0::nat) < length ?labels"
    and l1: "(1::nat) < length ?db" "(1::nat) < length ?labels" by simp_all
  from noise_label_stored_as_none [OF h1 h1 l0 m0 i0]
       noise_label_stored_as_none [OF h1 h1 l1 m1 i1]
  show ?thesis by simp
qed

section \<open>Ranking and selection\<close>

lemma set_argsort: "set (argsort scores) = {0..<length scores}"
  by (simp add: argsort_def)

lemma distinct_argsort: "distinct (argsort scores)"
  by (simp add: argsort_def)

lemma length_argsort: "length (argsort scores) = length scores"
  by (simp add: argsort_def)

lemma sorted_argsort: "sorted (map (\<lambda>i. scores ! i) (argsort scores))"
  by (simp add: argsort_def)

lemma slice_from_drop: "\<exists>m. slice_from start xs = drop m xs"
  by (auto simp: slice_from_def)

lemma slice_last: "0 < k \<Longrightarrow> slice_from (- k) xs = drop (length xs - nat k) xs"
  by (simp add: slice_from_def nat_diff_distrib')

lemma top_indices_drop: "\<exists>m. top_indices scores top_k = rev (drop m (argsort scores))"
  using slice_from_drop [of "- top_k" "argsort scores"] by (auto simp: top_indices_def)

lemma distinct_top_indices: "distinct (top_indices scores top_k)"
  using top_indices_drop [of scores top_k] by (auto simp: distinct_argsort)

lemma set_top_indices: "set (top_indices scores top_k) \<subseteq> {0..<length scores}"
proof -
  obtain m where "top_indices scores top_k = rev (drop m (argsort scores))"
    using top_indices_drop by blast
  then have "set (top_indices scores top_k) \<subseteq> set (argsort scores)"
    by (simp add: set_drop_subset)
  then show ?thesis by (simp only: set_argsort)
qed

lemma length_top_indices:
  "0 < top_k \<Longrightarrow> length (top_indices scores top_k) = min (nat top_k) (length scores)"
  by (simp add: top_indices_def slice_last length_argsort)

lemma top_indices_descending:
  "sorted (rev (map (\<lambda>i. scores ! i) (top_indices scores top_k)))"
proof -
  obtain m where m: "top_indices scores top_k = rev (drop m (argsort scores))"
    using top_indices_drop by blast
  have "sorted (drop m (map (\<lambda>i. scores ! i) (argsort scores)))"
    using sorted_argsort by (rule sorted_wrt_drop)
  then show ?thesis by (simp add: m rev_map drop_map)
qed

lemma top_indices_dominate:
  assumes "i \<in> set (top_indices scores top_k)" and "j < length scores"
    and "j \<notin> set (top_indices scores top_k)"
  shows "scores ! j \<le> scores ! i"
proof -
  obtain m where m: "top_indices scores top_k = rev (drop m (argsort scores))"
    using top_indices_drop by blast
  let ?p = "argsort scores"
  have i: "i \<in> set (drop m ?p)" using assms(1) by (simp add: m)
  have "j \<in> set ?p" using assms(2) by (simp add: set_argsort)
  then have "j \<in> set (take m ?p) \<union> set (drop m ?p)"
    by (metis append_take_drop_id set_append)
  with assms(3) have j: "j \<in> set (take m ?p)" by (simp add: m)
  have "sorted (map (\<lambda>i. scores ! i) (take m ?p @ drop m ?p))"
    using sorted_argsort [of scores] by simp
  then have "\<forall>x \<in> set (take m ?p). \<forall>y \<in> set (drop m ?p). scores ! x \<le> scores ! y"
    by (simp only: map_append sorted_append set_map) blast
  with i j show ?thesis by blast
qed

lemma highlight_scores_nonempty: "highlight_scores articles thr = Inr scores \<Longrightarrow> articles \<noteq> []"
  by (auto simp: highlight_scores_def cosine_similarity_def)

lemma scores_two_articles: "highlight_scores [art_breaking, art_plain] (9 / 10) = Inr [1, 1]"
  by (simp add: highlight_scores_def art_breaking_fields art_plain_fields cosine_similarity_def
      cos_sim_samples freq_scores_def boost_breaking boost_plain)

lemma top_two_tied: "top_indices [1, 1] 5 = [1, 0]" "top_indices [1, 1] 1 = [1]"
  by (simp_all add: top_indices_def slice_from_def argsort_def upt_rec)

text \<open>
  Claim C4, as stated: among articles with equal scores the one earlier in the input is
  ordered and selected first. Two articles of one category with the same score come out in
  the opposite order, and with \<open>top_k = 1\<close> the later one is the one selected: the
  ascending \<open>argsort\<close> is cut at the end and reversed.
\<close>

theorem tie_puts_later_article_first:
  "highlight_scores [art_breaking, art_plain] (9 / 10) = Inr [1, 1]
   \<and> get_highlights [art_breaking, art_plain] ''sports'' 5 (9 / 10) = Inr [art_plain, art_breaking]
   \<and> get_highlights [art_breaking, art_plain] ''sports'' 1 (9 / 10) = Inr [art_plain]"
  by (simp add: get_highlights_def find_docs_def art_breaking_fields art_plain_fields
      scores_two_articles top_two_tied)

text \<open>
  Claim C4, amended: the selection step ranks the articles by composite score descending
  and takes the top of that ranking: the selected articles are listed with non-increasing
  scores, and no article left out scores higher than a selected one. Equal scores are not
  ordered by input position.
\<close>

theorem top_k_ranked_by_score:
  assumes "highlight_scores (find_docs (\<lambda>d. predicted_topic d = Some category) db) thr = Inr scores"
  shows "get_highlights db category top_k thr =
           Inr (map (\<lambda>i. find_docs (\<lambda>d. predicted_topic d = Some category) db ! i)
                  (top_indices scores top_k))
         \<and> sorted (rev (map (\<lambda>i. scores ! i) (top_indices scores top_k)))
         \<and> (\<forall>i \<in> set (top_indices scores top_k). \<forall>j < length scores.
               j \<notin> set (top_indices scores top_k) \<longrightarrow> scores ! j \<le> scores ! i)"
proof (intro conjI)
  show "get_highlights db category top_k thr =
           Inr (map (\<lambda>i. find_docs (\<lambda>d. predicted_topic d = Some category) db ! i)
                  (top_indices scores top_k))"
    using assms highlight_scores_nonempty [OF assms] by (simp add: get_highlights_def)
  show "sorted (rev (map (\<lambda>i. scores ! i) (top_indices scores top_k)))"
    by (rule top_indices_descending)
  show "\<forall>i \<in> set (top_indices scores top_k). \<forall>j < length scores.
               j \<notin> set (top_indices scores top_k) \<longrightarrow> scores ! j \<le> scores ! i"
    using top_indices_dominate by blast
qed

theorem top_k_ranked_by_score_witness:
  "get_highlights [art_breaking, art_plain] ''sports'' 1 (9 / 10) = Inr [art_plain]
   \<and> sorted (rev (map (\<lambda>i. [1, 1 :: int] ! i) (top_indices [1, 1] 1)))"
proof -
  have f: "find_docs (\<lambda>d. predicted_topic d = Some ''sports'') [art_breaking, art_plain]
             = [art_breaking, art_plain]"
    by (simp add: find_docs_def art_breaking_fields art_plain_fields)
  have h: "highlight_scores (find_docs (\<lambda>d. predicted_topic d = Some ''sports'')
             [art_breaking, art_plain]) (9 / 10) = Inr [1, 1]"
    by (simp only: f scores_two_articles)
  from top_k_ranked_by_score [OF h, of 1] show ?thesis
    by (simp add: f top_two_tied)
qed

section \<open>Selection reads content only\<close>

lemma embeddings_of_map: "same_content h \<Longrightarrow> embeddings_of (map h as) = embeddings_of as"
  by (induction as) (auto simp: same_content_def split: option.splits sum.splits)

lemma keyword_boost_map: "same_content h \<Longrightarrow> keyword_boost (h a) = keyword_boost a"
  by (simp add: keyword_boost_def same_content_def)

lemma highlight_scores_map:
  assumes "same_content h"
  shows "highlight_scores (map h as) thr = highlight_scores as thr"
proof -
  have "map2 (\<lambda>a f. f + keyword_boost a) (map h as) fs = map2 (\<lambda>a f. f + keyword_boost a) as fs"
    for fs
    by (simp add: zip_map1 keyword_boost_map [OF assms] split_def)
  then show ?thesis
    by (simp add: highlight_scores_def embeddings_of_map [OF assms] split: sum.splits)
qed

lemma find_docs_map:
  "same_content h \<Longrightarrow>
   find_docs (\<lambda>d. predicted_topic d = Some c) (map h db) =
   map h (find_docs (\<lambda>d. predicted_topic d = Some c) db)"
  by (simp add: find_docs_def filter_map comp_def same_content_def)

lemma length_highlight_scores: "highlight_scores as thr = Inr scores \<Longrightarrow> length scores = length as"
  by (drule highlight_scores_Inr) simp

lemma get_highlights_map:
  assumes "same_content h"
  shows "get_highlights (map h db) c k thr =
         (case get_highlights db c k thr of Inl e \<Rightarrow> Inl e | Inr hs \<Rightarrow> Inr (map h hs))"
proof -
  let ?as = "find_docs (\<lambda>d. predicted_topic d = Some c) db"
  show ?thesis
  proof (cases "highlight_scores ?as thr")
    case (Inl e)
    then show ?thesis
      by (simp add: get_highlights_def Let_def find_docs_map [OF assms] highlight_scores_map [OF assms])
  next
    case (Inr scores)
    have "\<forall>i \<in> set (top_indices scores k). i < length ?as"
      using set_top_indices [of scores k] length_highlight_scores [OF Inr] by auto
    then have "map (\<lambda>i. map h ?as ! i) (top_indices scores k) =
               map h (map (\<lambda>i. ?as ! i) (top_indices scores k))"
      by simp
    with Inr show ?thesis
      by (simp add: get_highlights_def Let_def find_docs_map [OF assms] highlight_scores_map [OF assms])
  qed
qed

lemma selected_ids_map:
  assumes "same_content h"
  shows "selected_ids (map h db) c k = selected_ids db c k"
proof -
  have "map doc_id (map h hs) = map doc_id hs" for hs
    using assms by (simp add: same_content_def)
  then show ?thesis
    by (simp add: selected_ids_def get_highlights_map [OF assms] split: sum.splits)
qed

lemma selected_ids_in_category:
  "set (selected_ids db c k) \<subseteq> doc_id ` {d \<in> set db. predicted_topic d = Some c}"
proof (cases "highlight_scores (find_docs (\<lambda>d. predicted_topic d = Some c) db) (9 / 10)")
  case (Inl e)
  then show ?thesis by (simp add: selected_ids_def get_highlights_def Let_def)
next
  case (Inr scores)
  let ?as = "find_docs (\<lambda>d. predicted_topic d = Some c) db"
  have "\<forall>i \<in> set (top_indices scores k). ?as ! i \<in> set ?as"
    using set_top_indices [of scores k] length_highlight_scores [OF Inr] by auto
  then have "set (map (\<lambda>i. ?as ! i) (top_indices scores k)) \<subseteq> {d \<in> set db. predicted_topic d = Some c}"
    by (auto simp: find_docs_def)
  then show ?thesis
    using Inr by (auto simp: selected_ids_def get_highlights_def Let_def)
qed

lemma distinct_selected_ids:
  assumes "distinct (map doc_id db)"
  shows "distinct (selected_ids db c k)"
proof (cases "highlight_scores (find_docs (\<lambda>d. predicted_topic d = Some c) db) (9 / 10)")
  case (Inl e)
  then show ?thesis by (simp add: selected_ids_def get_highlights_def Let_def)
next
  case (Inr scores)
  let ?as = "find_docs (\<lambda>d. predicted_topic d = Some c) db"
  have das: "distinct (map doc_id ?as)"
    using assms by (simp add: find_docs_def distinct_map_filter)
  have lt: "\<forall>i \<in> set (top_indices scores k). i < length ?as"
    using set_top_indices [of scores k] length_highlight_scores [OF Inr] by auto
  have "distinct (map (\<lambda>i. doc_id (?as ! i)) (top_indices scores k))"
    unfolding distinct_map
  proof
    show "distinct (top_indices scores k)" by (rule distinct_top_indices)
    show "inj_on (\<lambda>i. doc_id (?as ! i)) (set (top_indices scores k))"
    proof (rule inj_onI)
      fix i j
      assume "i \<in> set (top_indices scores k)" "j \<in> set (top_indices scores k)"
        and eq: "doc_id (?as ! i) = doc_id (?as ! j)"
      then have ij: "i < length ?as" "j < length ?as" using lt by auto
      have "map doc_id ?as ! i = map doc_id ?as ! j \<longleftrightarrow> i = j"
        using das ij by (intro nth_eq_iff_index_eq) simp_all
      moreover have "map doc_id ?as ! i = map doc_id ?as ! j" using eq ij by simp
      ultimately show "i = j" by blast
    qed
  qed
  then have "distinct (map doc_id (map (\<lambda>i. ?as ! i) (top_indices scores k)))"
    by (simp add: comp_def)
  then show ?thesis
    using Inr highlight_scores_nonempty [OF Inr] by (simp add: selected_ids_def get_highlights_def Let_def)
qed

lemma length_selected_ids:
  assumes "highlight_scores (find_docs (\<lambda>d. predicted_topic d = Some c) db) (9 / 10) = Inr scores"
    and "0 < k"
  shows "length (selected_ids db c k) =
         min (nat k) (length (find_docs (\<lambda>d. predicted_topic d = Some c) db))"
  using assms highlight_scores_nonempty [OF assms(1)]
  by (simp add: selected_ids_def get_highlights_def Let_def length_top_indices length_highlight_scores)

section \<open>One run of update_featured_highlights\<close>

lemma same_content_refeature: "same_content (refeature now c sel)"
  by (simp add: same_content_def refeature_def)

lemma case_find_const:
  "(case find P xs of None \<Rightarrow> a | Some _ \<Rightarrow> b) = (if \<exists>x \<in> set xs. P x then b else a)"
proof (cases "find P xs")
  case None
  then have "\<not> (\<exists>x \<in> set xs. P x)" by (simp add: find_None_iff)
  with None show ?thesis by simp
next
  case (Some x)
  then have "\<exists>x \<in> set xs. P x" by (auto simp: find_Some_iff)
  with Some show ?thesis by simp
qed

lemma map_doc_id_same_content: "same_content h \<Longrightarrow> map doc_id (map h db) = map doc_id db"
  by (simp add: same_content_def)

lemma update_featured_result:
  assumes "distinct (map doc_id db)"
  shows "update_featured_highlights now db c k =
           (map (refeature now c (selected_ids db c k)) db,
            (case get_highlights db c k (9 / 10) of Inl e \<Rightarrow> Some e | Inr _ \<Rightarrow> None))"
proof -
  let ?g = "refeature now c []"
  let ?db1 = "map ?g db"
  have db1: "update_many (\<lambda>d. predicted_topic d = Some c) (\<lambda>d. d\<lparr>is_featured := Some False\<rparr>) db = ?db1"
    by (simp add: update_many_def refeature_def)
  have g: "same_content ?g" by (rule same_content_refeature)
  show ?thesis
  proof (cases "get_highlights db c k (9 / 10)")
    case (Inl e)
    then show ?thesis
      by (simp add: update_featured_highlights_def db1 get_highlights_map [OF g] selected_ids_def)
  next
    case (Inr hs)
    let ?sel = "selected_ids db c k"
    have sel: "?sel = map doc_id hs" using Inr by (simp add: selected_ids_def)
    have ids1: "map doc_id (map ?g hs) = ?sel"
      by (simp only: sel map_doc_id_same_content [OF g])
    have d1: "distinct (map doc_id ?db1)"
      using assms by (simp only: map_doc_id_same_content [OF g])
    have dsel: "distinct (map (\<lambda>k. k) ?sel)"
      using distinct_selected_ids [OF assms, of c k] by simp
    have inj: "inj_on doc_id (set db)" using assms by (simp add: distinct_map)
    have "mark_featured now ?db1 ?sel =
            map (\<lambda>d. case find (\<lambda>k. k = doc_id d) ?sel of None \<Rightarrow> d
                      | Some k \<Rightarrow> d\<lparr>is_featured := Some True, featured_at := Some now\<rparr>) ?db1"
      unfolding mark_featured_def by (rule fold_update_one [OF d1 _ dsel]) simp
    also have "\<dots> = map (refeature now c ?sel) db"
    proof (simp only: map_map, rule map_cong [OF refl])
      fix d assume d: "d \<in> set db"
      have out: "predicted_topic d \<noteq> Some c \<Longrightarrow> doc_id d \<notin> set ?sel"
      proof
        assume nc: "predicted_topic d \<noteq> Some c" and "doc_id d \<in> set ?sel"
        then obtain d' where "d' \<in> set db" "predicted_topic d' = Some c" "doc_id d' = doc_id d"
          using selected_ids_in_category [of db c k] by auto
        with inj d have "d' = d" by (auto dest: inj_onD)
        with \<open>predicted_topic d' = Some c\<close> nc show False by simp
      qed
      show "((\<lambda>d. case find (\<lambda>k. k = doc_id d) ?sel of None \<Rightarrow> d
                   | Some k \<Rightarrow> d\<lparr>is_featured := Some True, featured_at := Some now\<rparr>) \<circ> ?g) d
            = refeature now c ?sel d"
        using out by (simp add: case_find_const refeature_def)
    qed
    finally have "mark_featured now ?db1 ?sel = map (refeature now c ?sel) db" .
    then show ?thesis
      using Inr
      by (simp add: update_featured_highlights_def db1 get_highlights_map [OF g] ids1 del: map_map)
  qed
qed

lemma featured_ids_refeature:
  "featured_ids (map (refeature now c sel) db) c =
   map doc_id (filter (\<lambda>d. predicted_topic d = Some c \<and> doc_id d \<in> set sel) db)"
  by (induction db) (simp_all add: featured_ids_def refeature_def)

lemma filter_content_map:
  assumes "same_content h"
  shows "map doc_id (filter (\<lambda>d. predicted_topic d = Some c \<and> doc_id d \<in> S) (map h db)) =
         map doc_id (filter (\<lambda>d. predicted_topic d = Some c \<and> doc_id d \<in> S) db)"
  using assms by (induction db) (simp_all add: same_content_def)

lemma art_stale_fields:
  "doc_id art_stale = 6" "embedding art_stale = Some [0, 1]"
  "predicted_topic art_stale = Some ''sports''" "is_featured art_stale = Some True"
  by (simp_all add: art_stale_def)

lemma art_breaking_news_fields:
  "doc_id art_breaking_news = 2" "embedding art_breaking_news = Some [1, 0]"
  "predicted_topic art_breaking_news = Some ''sports''"
  by (simp_all add: art_breaking_news_def sample_fields)

lemma boost_stale: "keyword_boost art_stale = 0"
  by code_simp

lemma scores_stale_pair: "highlight_scores [art_stale, art_breaking_news] (9 / 10) = Inr [1, 6]"
  by (simp add: highlight_scores_def art_stale_fields art_breaking_news_fields
      cosine_similarity_def cos_sim_samples freq_scores_def boost_stale boost_breaking_news)

lemma top_one_of_pair: "top_indices [1, 6] 1 = [1]"
  by (simp add: top_indices_def slice_from_def argsort_def upt_rec)

lemma selected_stale_pair: "selected_ids [art_stale, art_breaking_news] ''sports'' 1 = [2]"
  by (simp add: selected_ids_def get_highlights_def find_docs_def art_stale_fields
      art_breaking_news_fields scores_stale_pair top_one_of_pair)

text \<open>
  Claim C2: a run first resets \<open>is_featured\<close> to false on every article of the category
  and then marks the winners, so the featured articles of the category after the run are
  exactly the ones selected in that run, whatever was flagged before; an article of the
  category that is not selected ends with \<open>is_featured = False\<close>. A second run on the
  store the first one left yields the same featured set, and ends the same way.
  Identities are unique in the store.
\<close>

theorem featured_set_recomputed:
  assumes "distinct (map doc_id db)"
  shows "set (featured_ids (fst (update_featured_highlights now db c k)) c) = set (selected_ids db c k)
       \<and> (\<forall>d \<in> set (fst (update_featured_highlights now db c k)).
             predicted_topic d = Some c \<and> doc_id d \<notin> set (selected_ids db c k)
             \<longrightarrow> is_featured d = Some False)
       \<and> featured_ids (fst (update_featured_highlights now'
             (fst (update_featured_highlights now db c k)) c k)) c
           = featured_ids (fst (update_featured_highlights now db c k)) c
       \<and> snd (update_featured_highlights now'
             (fst (update_featured_highlights now db c k)) c k)
           = snd (update_featured_highlights now db c k)"
proof -
  let ?sel = "selected_ids db c k"
  let ?h = "refeature now c ?sel"
  let ?db' = "map ?h db"
  have r1: "update_featured_highlights now db c k =
              (?db', (case get_highlights db c k (9 / 10) of Inl e \<Rightarrow> Some e | Inr _ \<Rightarrow> None))"
    by (rule update_featured_result [OF assms])
  have h: "same_content ?h" by (rule same_content_refeature)
  have d': "distinct (map doc_id ?db')" using assms by (simp only: map_doc_id_same_content [OF h])
  have sel': "selected_ids ?db' c k = ?sel" by (rule selected_ids_map [OF h])
  have r2: "update_featured_highlights now' ?db' c k =
              (map (refeature now' c ?sel) ?db',
               (case get_highlights ?db' c k (9 / 10) of Inl e \<Rightarrow> Some e | Inr _ \<Rightarrow> None))"
    using update_featured_result [OF d', of now' c k] by (simp only: sel')
  have a: "set (featured_ids ?db' c) = set ?sel"
    using selected_ids_in_category [of db c k] by (auto simp: featured_ids_refeature)
  have b: "\<forall>d \<in> set ?db'. predicted_topic d = Some c \<and> doc_id d \<notin> set ?sel
             \<longrightarrow> is_featured d = Some False"
    by (auto simp: refeature_def)
  have c: "featured_ids (map (refeature now' c ?sel) ?db') c = featured_ids ?db' c"
    by (simp only: featured_ids_refeature filter_content_map [OF h])
  have e: "(case get_highlights ?db' c k (9 / 10) of Inl e \<Rightarrow> Some e | Inr _ \<Rightarrow> None) =
           (case get_highlights db c k (9 / 10) of Inl e \<Rightarrow> Some e | Inr _ \<Rightarrow> None)"
    by (simp add: get_highlights_map [OF h] split: sum.splits)
  show ?thesis
    unfolding r1 fst_conv snd_conv r2 using a b c e by blast
qed

theorem featured_set_recomputed_witness:
  "set (featured_ids (fst (update_featured_highlights ''2025-01-02 09:00:00''
          [art_stale, art_breaking_news] ''sports'' 1)) ''sports'') = {2}
   \<and> featured_ids (fst (update_featured_highlights ''2025-01-03 09:00:00''
          (fst (update_featured_highlights ''2025-01-02 09:00:00''
             [art_stale, art_breaking_news] ''sports'' 1)) ''sports'' 1)) ''sports''
      = featured_ids (fst (update_featured_highlights ''2025-01-02 09:00:00''
          [art_stale, art_breaking_news] ''sports'' 1)) ''sports''"
proof -
  have d: "distinct (map doc_id [art_stale, art_breaking_news])"
    by (simp add: art_stale_fields art_breaking_news_fields)
  from featured_set_recomputed [OF d, of "''2025-01-02 09:00:00''" "''sports''" 1
      "''2025-01-03 09:00:00''"]
  show ?thesis by (simp add: selected_stale_pair)
qed

lemma embeddings_of_all:
  "\<forall>a \<in> set as. \<exists>v. embedding a = Some v \<and> length v = D \<Longrightarrow> embeddings_of as = Inr (map emb as)"
  by (induction as) (auto simp: emb_def)

lemma highlight_scores_succeeds:
  assumes "as \<noteq> []" and "0 < D"
    and "\<forall>a \<in> set as. \<exists>v. embedding a = Some v \<and> length v = D"
  shows "\<exists>scores. highlight_scores as thr = Inr scores"
proof -
  have len: "\<forall>a \<in> set as. length (emb a) = D"
    using assms(3) by (auto simp: emb_def)
  obtain a as' where as: "as = a # as'" using assms(1) by (cases as) auto
  have "emb a \<noteq> []" using len assms(2) by (auto simp: as)
  moreover have "\<not> list_ex (\<lambda>v. length v \<noteq> length (emb a)) (map emb as)"
    using len by (auto simp: list_ex_iff as)
  ultimately have "\<exists>M. cosine_similarity (map emb as) = Inr M"
    by (simp add: cosine_similarity_def as)
  then show ?thesis
    by (auto simp: highlight_scores_def embeddings_of_all [OF assms(3)])
qed

lemma length_selected_filter:
  assumes "distinct (map doc_id db)"
  shows "length (filter (\<lambda>d. predicted_topic d = Some c \<and> doc_id d \<in> set (selected_ids db c k)) db)
         = length (selected_ids db c k)"
proof -
  let ?sel = "selected_ids db c k"
  let ?f = "filter (\<lambda>d. predicted_topic d = Some c \<and> doc_id d \<in> set ?sel) db"
  have "distinct (map doc_id ?f)" using assms by (rule distinct_map_filter)
  then have "length (map doc_id ?f) = card (set (map doc_id ?f))" by (simp only: distinct_card)
  moreover have "set (map doc_id ?f) = set ?sel"
    using selected_ids_in_category [of db c k] by auto
  moreover have "card (set ?sel) = length ?sel"
    using distinct_selected_ids [OF assms] by (rule distinct_card)
  ultimately show ?thesis by simp
qed

text \<open>
  Claim C5: one run features exactly \<open>min(K, n)\<close> articles of a category with \<open>n\<close>
  articles; with \<open>n \<le> K\<close> every article of the category ends featured, and on an empty
  category the run changes nothing and raises nothing. \<open>K\<close> is a positive count, the
  articles of the category carry embeddings of one dimension \<open>D > 0\<close>, and identities are
  unique in the store.
\<close>

theorem featured_count_is_min_k_n:
  assumes "distinct (map doc_id db)" and "0 < top_k" and "0 < D"
    and "\<forall>d \<in> set db. predicted_topic d = Some c \<longrightarrow> (\<exists>v. embedding d = Some v \<and> length v = D)"
  shows "snd (update_featured_highlights now db c top_k) = None
       \<and> length (featured_ids (fst (update_featured_highlights now db c top_k)) c)
           = min (nat top_k) (length (find_docs (\<lambda>d. predicted_topic d = Some c) db))
       \<and> (length (find_docs (\<lambda>d. predicted_topic d = Some c) db) \<le> nat top_k \<longrightarrow>
            (\<forall>d \<in> set (fst (update_featured_highlights now db c top_k)).
               predicted_topic d = Some c \<longrightarrow> is_featured d = Some True))
       \<and> (find_docs (\<lambda>d. predicted_topic d = Some c) db = [] \<longrightarrow>
            fst (update_featured_highlights now db c top_k) = db)"
proof -
  let ?as = "find_docs (\<lambda>d. predicted_topic d = Some c) db"
  let ?sel = "selected_ids db c top_k"
  have r: "update_featured_highlights now db c top_k =
             (map (refeature now c ?sel) db,
              (case get_highlights db c top_k (9 / 10) of Inl e \<Rightarrow> Some e | Inr _ \<Rightarrow> None))"
    by (rule update_featured_result [OF assms(1)])
  have cnt: "length (featured_ids (map (refeature now c ?sel) db) c) = length ?sel"
    by (simp add: featured_ids_refeature length_selected_filter [OF assms(1)])
  show ?thesis
  proof (cases "?as = []")
    case True
    then have none: "\<forall>d \<in> set db. predicted_topic d \<noteq> Some c"
      by (simp add: find_docs_def filter_empty_conv)
    have gh: "get_highlights db c top_k (9 / 10) = Inr []"
      using True by (simp add: get_highlights_def)
    have same: "map (refeature now c ?sel) db = db"
      using none by (simp add: map_idI refeature_def)
    have nof: "featured_ids db c = []"
      using none by (simp add: featured_ids_def filter_empty_conv)
    show ?thesis
      unfolding r fst_conv snd_conv same using none gh True nof by simp
  next
    case False
    have "\<forall>a \<in> set ?as. \<exists>v. embedding a = Some v \<and> length v = D"
      using assms(4) by (simp add: find_docs_def)
    then obtain scores where sc: "highlight_scores ?as (9 / 10) = Inr scores"
      using highlight_scores_succeeds [OF False assms(3)] by blast
    have gh: "\<exists>hs. get_highlights db c top_k (9 / 10) = Inr hs"
      using sc False by (simp add: get_highlights_def)
    have len: "length ?sel = min (nat top_k) (length ?as)"
      by (rule length_selected_ids [OF sc assms(2)])
    have all: "\<forall>d \<in> set (map (refeature now c ?sel) db).
                 predicted_topic d = Some c \<longrightarrow> is_featured d = Some True"
      if le: "length ?as \<le> nat top_k"
    proof -
      have das: "distinct (map doc_id ?as)"
        using assms(1) by (simp add: find_docs_def distinct_map_filter)
      have "card (set ?sel) = length ?sel"
        using distinct_selected_ids [OF assms(1)] by (rule distinct_card)
      moreover have "card (set (map doc_id ?as)) = length ?as"
        using das by (simp only: distinct_card length_map)
      ultimately have "card (set ?sel) = card (set (map doc_id ?as))"
        using len le by simp
      moreover have "set ?sel \<subseteq> set (map doc_id ?as)"
        using selected_ids_in_category [of db c top_k] by (auto simp: find_docs_def)
      ultimately have eq: "set ?sel = set (map doc_id ?as)"
        by (intro card_subset_eq) simp_all
      show ?thesis
      proof
        fix d' assume "d' \<in> set (map (refeature now c ?sel) db)"
        then obtain d where d: "d \<in> set db" "d' = refeature now c ?sel d" by auto
        show "predicted_topic d' = Some c \<longrightarrow> is_featured d' = Some True"
        proof
          assume "predicted_topic d' = Some c"
          then have pc: "predicted_topic d = Some c" using d(2) by (simp add: refeature_def split: if_splits)
          with d(1) have "doc_id d \<in> set (map doc_id ?as)" by (simp add: find_docs_def)
          then have "doc_id d \<in> set ?sel" by (simp only: eq)
          with pc d(2) show "is_featured d' = Some True" by (simp add: refeature_def)
        qed
      qed
    qed
    from gh cnt len False all show ?thesis
      by (auto simp: r)
  qed
qed

theorem featured_count_is_min_k_n_witness:
  "snd (update_featured_highlights ''2025-01-02 09:00:00''
          [art_stale, art_breaking_news] ''sports'' 5) = None
   \<and> length (featured_ids (fst (update_featured_highlights ''2025-01-02 09:00:00''
          [art_stale, art_breaking_news] ''sports'' 5)) ''sports'') = 2"
proof -
  have d: "distinct (map doc_id [art_stale, art_breaking_news])"
    by (simp add: art_stale_fields art_breaking_news_fields)
  have k: "(0::int) < 5" and D: "(0::nat) < 2" by simp_all
  have e: "\<forall>d \<in> set [art_stale, art_breaking_news]. predicted_topic d = Some ''sports'' \<longrightarrow>
             (\<exists>v. embedding d = Some v \<and> length v = 2)"
    by (simp add: art_stale_fields art_breaking_news_fields)
  from featured_count_is_min_k_n [OF d k D e, of "''2025-01-02 09:00:00''"]
  show ?thesis
    by (simp add: find_docs_def art_stale_fields art_breaking_news_fields)
qed

section \<open>Articles without an embedding\<close>















end
